theory Spec2Isabelle
  imports Main
begin

section \<open>Runes, strings and host predicates\<close>

text \<open>
  The Go sources read their strings rune by rune (\<^verbatim>\<open>utf8.DecodeRuneInString\<close>,
  \<^verbatim>\<open>for _, r := range line\<close>). A string is modelled by the list of its runes, a rune
  by its code point; a position in a string counts runes, so the width of a rune is 1.
\<close>

type_synonym rune = nat
type_synonym gostring = "rune list"

definition runes :: "string \<Rightarrow> gostring" where
  "runes s = map (of_char :: char \<Rightarrow> nat) s"

text \<open>
  \<^verbatim>\<open>unicode.IsSpace\<close>: in Latin-1 the runes \<^verbatim>\<open>\t \n \v \f \r\<close>, space, U+0085 and
  U+00A0; beyond Latin-1 the runes of the White\_Space property (U+1680, U+2000..U+200A,
  U+2028, U+2029, U+202F, U+205F, U+3000).
\<close>

definition IsSpace :: "rune \<Rightarrow> bool" where
  "IsSpace r =
     (if r \<le> 255 then r = 9 \<or> r = 10 \<or> r = 11 \<or> r = 12 \<or> r = 13 \<or> r = 32 \<or> r = 133 \<or> r = 160
      else r = 5760 \<or> (8192 \<le> r \<and> r \<le> 8202) \<or> r = 8232 \<or> r = 8233 \<or> r = 8239
           \<or> r = 8287 \<or> r = 12288)"

text \<open>
  \<^verbatim>\<open>unicode.IsNumber\<close>: in Latin-1 the digits \<^verbatim>\<open>0\<close>..\<^verbatim>\<open>9\<close> and U+00B2, U+00B3, U+00B9,
  U+00BC..U+00BE; beyond Latin-1 it looks the rune up in the table of category N, which
  is no part of the repository and is the parameter \<open>N\<close>.
\<close>

definition IsNumber :: "(rune \<Rightarrow> bool) \<Rightarrow> rune \<Rightarrow> bool" where
  "IsNumber N r =
     (if r \<le> 255 then (48 \<le> r \<and> r \<le> 57) \<or> r = 178 \<or> r = 179 \<or> r = 185
                        \<or> (188 \<le> r \<and> r \<le> 190)
      else N r)"

datatype panic =
    BackupAtZero          \<comment> \<open>\<^verbatim>\<open>panic("parser.Backup() called on p.pos == 0")\<close>\<close>
  | IndexOutOfRange       \<comment> \<open>the run-time panic of an index outside a slice\<close>
  | FatalNegativeIndex    \<comment> \<open>\<^verbatim>\<open>log.Fatalf("cannot set negative index")\<close>\<close>
  | FatalIndexOutside     \<comment> \<open>\<^verbatim>\<open>log.Fatalf("cannot set index outside slice length")\<close>\<close>

datatype error = Error string

text \<open>\<^verbatim>\<open>xs[i]\<close> of Go: the element, or the run-time panic when \<open>i\<close> is out of range.\<close>

definition go_index :: "'a list \<Rightarrow> int \<Rightarrow> panic + 'a" where
  "go_index xs i = (if 0 \<le> i \<and> i < int (length xs) then Inr (xs ! nat i) else Inl IndexOutOfRange)"

section \<open>Package halfpike: items and lines\<close>

datatype ItemType = ItemUnknown | ItemEOF | ItemText | ItemInt | ItemFloat | ItemEOL | itemSpace

text \<open>\<^verbatim>\<open>rune(ItemEOF)\<close>, the rune that \<^verbatim>\<open>lexer.next\<close> returns at the end of the input.\<close>

definition ItemEOF_rune :: rune where
  "ItemEOF_rune = 1"

record Item =
  Type :: ItemType
  Val :: gostring
  lineNum :: int
  raw :: gostring

record Line =
  Items :: "Item list"
  LineNum :: int
  Raw :: gostring

record rawInfo =
  str :: gostring
  num :: int

section \<open>Package halfpike: the lexer\<close>

text \<open>
  \<open>l_items\<close> is the channel \<^verbatim>\<open>l.items\<close>: the items sent so far, oldest first. The
  lexer is the only sender and the Parser the only receiver, so the Parser receives
  exactly this sequence; blocking on the channel is not modelled.
\<close>

record lexer =
  l_input :: gostring
  l_start :: nat
  l_pos :: nat
  l_width :: nat
  l_items :: "Item list"

definition newLexer :: "gostring \<Rightarrow> lexer" where
  "newLexer s = \<lparr>l_input = s, l_start = 0, l_pos = 0, l_width = 0, l_items = []\<rparr>"

text \<open>\<^verbatim>\<open>l.input[l.start:l.pos]\<close>.\<close>

definition pending :: "lexer \<Rightarrow> gostring" where
  "pending l = take (l_pos l - l_start l) (drop (l_start l) (l_input l))"

text \<open>
  \<^verbatim>\<open>emit\<close> takes the rawInfo as a variadic argument and reads \<^verbatim>\<open>ri[0]\<close> for ItemEOL and
  ItemEOF; every call with one of these two types passes it.
\<close>

definition emit :: "ItemType \<Rightarrow> rawInfo list \<Rightarrow> lexer \<Rightarrow> lexer" where
  "emit t ri l =
     (let item = (if t = ItemEOL \<or> t = ItemEOF
                  then (case ri of
                          r # _ \<Rightarrow> \<lparr>Type = t, Val = pending l, lineNum = num r, raw = str r\<rparr>
                        | [] \<Rightarrow> \<lparr>Type = t, Val = pending l, lineNum = 0, raw = []\<rparr>)
                  else \<lparr>Type = t, Val = pending l, lineNum = 0, raw = []\<rparr>)
      in l\<lparr>l_items := l_items l @ [item], l_start := l_pos l\<rparr>)"

definition current :: "lexer \<Rightarrow> gostring" where
  "current l = (if l_start l \<ge> length (l_input l) \<or> l_start l = l_pos l then [] else pending l)"

definition ignore :: "lexer \<Rightarrow> lexer" where
  "ignore l = l\<lparr>l_start := l_pos l\<rparr>"

text \<open>\<^verbatim>\<open>backup\<close> is only called right after \<^verbatim>\<open>next\<close>, so the width never exceeds the position.\<close>

definition backup :: "lexer \<Rightarrow> lexer" where
  "backup l = l\<lparr>l_pos := l_pos l - l_width l\<rparr>"

definition lexer_next :: "lexer \<Rightarrow> rune \<times> lexer" where
  "lexer_next l =
     (if l_pos l \<ge> length (l_input l) then (ItemEOF_rune, l\<lparr>l_width := 0\<rparr>)
      else (l_input l ! l_pos l, l\<lparr>l_width := 1, l_pos := l_pos l + 1\<rparr>))"

text \<open>
  The classification of a closed span, shared by the newline and the space case of
  \<^verbatim>\<open>untilSpace\<close>. \<^verbatim>\<open>isInt\<close> and \<^verbatim>\<open>isFloat\<close> wrap \<^verbatim>\<open>strconv.Atoi\<close> and
  \<^verbatim>\<open>strconv.ParseFloat\<close> of the host library; they are parameters.
\<close>

definition emit_span :: "(gostring \<Rightarrow> bool) \<Rightarrow> (gostring \<Rightarrow> bool) \<Rightarrow> bool \<Rightarrow> lexer \<Rightarrow> lexer" where
  "emit_span isInt isFloat skip l =
     (if isInt (current l) then emit ItemInt [] l
      else if isFloat (current l) then emit ItemFloat [] l
      else if skip then l
      else emit ItemText [] l)"

text \<open>
  The loop of \<^verbatim>\<open>untilSpace\<close>; one call is one iteration, starting with the
  \<^verbatim>\<open>l.next()\<close> that precedes it. The loop only ends by returning nil after ItemEOF.
\<close>

function untilSpace_loop ::
  "(gostring \<Rightarrow> bool) \<Rightarrow> (gostring \<Rightarrow> bool) \<Rightarrow> lexer \<Rightarrow> int \<Rightarrow> gostring \<Rightarrow> ItemType \<Rightarrow> lexer" where
  "untilSpace_loop isInt isFloat l0 ln raw0 lst =
     (let r = fst (lexer_next l0); l = snd (lexer_next l0); rw = raw0 @ [r] in
      if r = 10 then
        (if lst = ItemUnknown \<or> lst = ItemEOL
         then untilSpace_loop isInt isFloat (ignore l) (ln + 1) rw lst
         else untilSpace_loop isInt isFloat
                (emit ItemEOL [\<lparr>str = rw, num = ln\<rparr>]
                   (snd (lexer_next (emit_span isInt isFloat (lst = itemSpace) (backup l)))))
                (ln + 1) [] ItemEOL)
      else if r = ItemEOF_rune then emit ItemEOF [\<lparr>str = rw, num = ln\<rparr>] l
      else if IsSpace r then
        (if lst = ItemUnknown \<or> lst = ItemEOL \<or> lst = itemSpace
         then untilSpace_loop isInt isFloat (ignore l) ln rw lst
         else untilSpace_loop isInt isFloat
                (ignore (snd (lexer_next (emit_span isInt isFloat False (backup l)))))
                ln rw itemSpace)
      else untilSpace_loop isInt isFloat l ln rw ItemText)"
  by pat_completeness auto

termination
  by (relation "measure (\<lambda>(isInt, isFloat, l, ln, rw, lst). length (l_input l) - l_pos l)")
     (auto simp: lexer_next_def ignore_def backup_def emit_span_def emit_def ItemEOF_rune_def
           split: if_splits)

declare untilSpace_loop.simps [simp del]

definition untilSpace :: "(gostring \<Rightarrow> bool) \<Rightarrow> (gostring \<Rightarrow> bool) \<Rightarrow> lexer \<Rightarrow> lexer" where
  "untilSpace isInt isFloat l = untilSpace_loop isInt isFloat l 0 [] ItemUnknown"

text \<open>\<^verbatim>\<open>run\<close>: the start state is \<^verbatim>\<open>untilSpace\<close>, which returns nil; then the channel is closed.\<close>

definition run :: "(gostring \<Rightarrow> bool) \<Rightarrow> (gostring \<Rightarrow> bool) \<Rightarrow> lexer \<Rightarrow> lexer" where
  "run isInt isFloat l = untilSpace isInt isFloat l"

section \<open>Package halfpike: the Parser\<close>

text \<open>
  \<open>recv\<close> is what the Parser has still to receive from the channel: once the lexer
  has been started it is the whole output of \<^verbatim>\<open>run\<close>, and \<^verbatim>\<open>pull\<close> takes items from
  its front. The empty list is the closed and drained channel.
\<close>

record Parser =
  lines :: "Line list"
  pos :: int
  recv :: "Item list"
  lex :: lexer
  err :: "error option"

definition newParser :: "gostring \<Rightarrow> Parser" where
  "newParser inp = \<lparr>lines = [], pos = 0, recv = [], lex = newLexer inp, err = None\<rparr>"

text \<open>\<^verbatim>\<open>go p.lex.run()\<close>, as \<^verbatim>\<open>Parse\<close> and the tests do right after \<^verbatim>\<open>newParser\<close>.\<close>

definition go_run :: "(gostring \<Rightarrow> bool) \<Rightarrow> (gostring \<Rightarrow> bool) \<Rightarrow> Parser \<Rightarrow> Parser" where
  "go_run isInt isFloat p = p\<lparr>recv := l_items (run isInt isFloat (lex p))\<rparr>"

text \<open>The loop of \<^verbatim>\<open>pull\<close> over the channel: the line built so far, and what is left.\<close>

fun pull_range :: "Item list \<Rightarrow> Line \<Rightarrow> Line \<times> Item list" where
  "pull_range [] line = (line, [])"
| "pull_range (item # rest) line =
     (if Type item = ItemEOF \<or> Type item = ItemEOL
      then (line\<lparr>Raw := raw item, LineNum := lineNum item,
                 Items := Items line @ [item\<lparr>raw := [], lineNum := 0\<rparr>]\<rparr>, rest)
      else pull_range rest (line\<lparr>Items := Items line @ [item]\<rparr>))"

definition pull :: "Parser \<Rightarrow> Line \<times> Parser" where
  "pull p = (let (line, rest) = pull_range (recv p) \<lparr>Items = [], LineNum = 0, Raw = []\<rparr>
             in (line, p\<lparr>recv := rest\<rparr>))"

definition HasError :: "Parser \<Rightarrow> error option" where
  "HasError p = err p"

definition Backup :: "Parser \<Rightarrow> panic + (Line \<times> Parser)" where
  "Backup p =
     (let p1 = p\<lparr>pos := pos p - 1\<rparr> in
      if pos p1 < 0 then Inl BackupAtZero
      else (case go_index (lines p1) (pos p1) of
              Inl e \<Rightarrow> Inl e
            | Inr line \<Rightarrow> Inr (line, p1)))"

definition EOF :: "Line \<Rightarrow> panic + bool" where
  "EOF line =
     (case go_index (Items line) (int (length (Items line)) - 1) of
        Inl e \<Rightarrow> Inl e
      | Inr item \<Rightarrow> Inr (Type item = ItemEOF))"

text \<open>The last two branches of \<^verbatim>\<open>Next\<close>: pull at the end of the buffer, else step.\<close>

definition Next_advance :: "Parser \<Rightarrow> panic + (Line \<times> Parser)" where
  "Next_advance p =
     (if pos p \<ge> int (length (lines p))
      then (let (line, p1) = pull p;
                p2 = p1\<lparr>lines := lines p1 @ [line]\<rparr>;
                p3 = p2\<lparr>pos := pos p2 + 1\<rparr>
            in case go_index (lines p3) (pos p3 - 1) of
                 Inl e \<Rightarrow> Inl e
               | Inr l \<Rightarrow> Inr (l, p3))
      else (let p1 = p\<lparr>pos := pos p + 1\<rparr>
            in case go_index (lines p1) (pos p1 - 1) of
                 Inl e \<Rightarrow> Inl e
               | Inr l \<Rightarrow> Inr (l, p1)))"

definition Next :: "Parser \<Rightarrow> panic + (Line \<times> Parser)" where
  "Next p =
     (if length (lines p) = 0
      then (let (line, p1) = pull p;
                p2 = p1\<lparr>lines := lines p1 @ [line]\<rparr>;
                p3 = p2\<lparr>pos := 1\<rparr>
            in case go_index (lines p3) 0 of
                 Inl e \<Rightarrow> Inl e
               | Inr l \<Rightarrow> Inr (l, p3))
      else if pos p \<ge> int (length (lines p))
      then (let lastLine = int (length (lines p)) - 1 in
            case go_index (lines p) lastLine of
              Inl e \<Rightarrow> Inl e
            | Inr ll \<Rightarrow>
                (case EOF ll of
                   Inl e \<Rightarrow> Inl e
                 | Inr True \<Rightarrow> Inr (ll, p)
                 | Inr False \<Rightarrow> Next_advance p))
      else Next_advance p)"

definition Peek :: "Parser \<Rightarrow> panic + (Line \<times> Parser)" where
  "Peek p =
     (case Next p of
        Inl e \<Rightarrow> Inl e
      | Inr (i, p1) \<Rightarrow>
          (case Backup p1 of
             Inl e \<Rightarrow> Inl e
           | Inr (_, p2) \<Rightarrow> Inr (i, p2)))"

definition Skip :: gostring where
  "Skip = runes ''$.<skip>.$''"

text \<open>The loop \<^verbatim>\<open>for i, f := range find\<close> of \<^verbatim>\<open>IsAtStart\<close>, from index \<open>i\<close> on.\<close>

fun IsAtStart_range :: "Item list \<Rightarrow> nat \<Rightarrow> gostring list \<Rightarrow> panic + bool" where
  "IsAtStart_range its i [] = Inr True"
| "IsAtStart_range its i (f # fs) =
     (if f = Skip then IsAtStart_range its (Suc i) fs
      else (case go_index its (int i) of
              Inl e \<Rightarrow> Inl e
            | Inr item \<Rightarrow> if Val item \<noteq> f then Inr False else IsAtStart_range its (Suc i) fs))"

definition IsAtStart :: "Line \<Rightarrow> gostring list \<Rightarrow> panic + bool" where
  "IsAtStart line fnd =
     (if length fnd = 0 then Inr True
      else if length (Items line) < length fnd then Inr False
      else IsAtStart_range (Items line) 0 fnd)"

text \<open>
  A ParseFn takes the Parser and returns the next ParseFn or nil. The parse object that
  the steps fill in is the state \<open>'o\<close>; a step may panic.
\<close>

datatype 'o ParseFn = ParseFn "'o \<Rightarrow> Parser \<Rightarrow> panic + ('o ParseFn option \<times> 'o \<times> Parser)"

text \<open>\<^verbatim>\<open>Errorf\<close>: the error is \<^verbatim>\<open>fmt.Errorf(str, args...)\<close>, here the formatted message.\<close>

definition Errorf :: "Parser \<Rightarrow> string \<Rightarrow> 'o ParseFn option \<times> Parser" where
  "Errorf p msg = (None, p\<lparr>err := Some (Error msg)\<rparr>)"

text \<open>
  The step loop of \<^verbatim>\<open>Parse\<close>: \<^verbatim>\<open>for state := parseObject.Start; state != nil; { state = state(ctx, p) }\<close>.
  Nothing bounds the number of steps, so the loop is a partial function: \<open>None\<close> is
  the loop that does not end.
\<close>

partial_function (option) Parse_loop ::
  "'o ParseFn option \<Rightarrow> 'o \<Rightarrow> Parser \<Rightarrow> (panic + ('o \<times> Parser)) option" where
  "Parse_loop state ob p =
     (case state of
        None \<Rightarrow> Some (Inr (ob, p))
      | Some (ParseFn f) \<Rightarrow>
          (case f ob p of
             Inl e \<Rightarrow> Some (Inl e)
           | Inr (state', ob', p') \<Rightarrow> Parse_loop state' ob' p'))"

text \<open>
  \<^verbatim>\<open>Parse\<close>. The parse object is its state \<open>ob\<close>, its method \<^verbatim>\<open>Start\<close> and its method
  \<^verbatim>\<open>Validate\<close>, which returns its error and the object as it leaves it. The result is
  the returned error (\<open>None\<close> is nil) and the parse object after the call.
\<close>

definition Parse ::
  "(gostring \<Rightarrow> bool) \<Rightarrow> (gostring \<Rightarrow> bool) \<Rightarrow> gostring \<Rightarrow> 'o ParseFn
     \<Rightarrow> ('o \<Rightarrow> error option \<times> 'o) \<Rightarrow> 'o \<Rightarrow> (panic + (error option \<times> 'o)) option" where
  "Parse isInt isFloat content Start Validate ob =
     (let p = go_run isInt isFloat (newParser content) in
      case Parse_loop (Some Start) ob p of
        None \<Rightarrow> None
      | Some (Inl e) \<Rightarrow> Some (Inl e)
      | Some (Inr (ob1, p1)) \<Rightarrow>
          (case HasError p1 of
             Some e \<Rightarrow> Some (Inr (Some e, ob1))
           | None \<Rightarrow>
               (case Validate ob1 of
                  (Some e, ob2) \<Rightarrow> Some (Inr (Some e, ob2))
                | (None, ob2) \<Rightarrow> Some (Inr (None, ob2)))))"


section \<open>Scenarios and invariants of the Parser\<close>

text \<open>\<^verbatim>\<open>Next()\<close> called \<open>n\<close> times, and \<^verbatim>\<open>Backup()\<close> called \<open>n\<close> times: the lines returned, in call order.\<close>

fun Next_times :: "nat \<Rightarrow> Parser \<Rightarrow> panic + (Line list \<times> Parser)" where
  "Next_times 0 p = Inr ([], p)"
| "Next_times (Suc n) p =
     (case Next p of
        Inl e \<Rightarrow> Inl e
      | Inr (l, p1) \<Rightarrow>
          (case Next_times n p1 of
             Inl e \<Rightarrow> Inl e
           | Inr (ls, p2) \<Rightarrow> Inr (l # ls, p2)))"

fun Backup_times :: "nat \<Rightarrow> Parser \<Rightarrow> panic + (Line list \<times> Parser)" where
  "Backup_times 0 p = Inr ([], p)"
| "Backup_times (Suc n) p =
     (case Backup p of
        Inl e \<Rightarrow> Inl e
      | Inr (l, p1) \<Rightarrow>
          (case Backup_times n p1 of
             Inl e \<Rightarrow> Inl e
           | Inr (ls, p2) \<Rightarrow> Inr (l # ls, p2)))"

text \<open>
  What the proofs keep of a Parser: the cursor is inside the buffer, no buffered line is
  empty, and the channel still ends with ItemEOF unless the end-of-input line is buffered.
\<close>

definition ends_EOF :: "Line \<Rightarrow> bool" where
  "ends_EOF l = (Items l \<noteq> [] \<and> Type (last (Items l)) = ItemEOF)"

definition buffer_ok :: "Parser \<Rightarrow> bool" where
  "buffer_ok p =
     (0 \<le> pos p \<and> pos p \<le> int (length (lines p)) \<and>
      list_all (\<lambda>l. Items l \<noteq> []) (lines p) \<and>
      (if recv p = [] then lines p \<noteq> [] \<and> ends_EOF (last (lines p))
       else Type (last (recv p)) = ItemEOF))"

definition at_end :: "Parser \<Rightarrow> bool" where
  "at_end p = (lines p \<noteq> [] \<and> int (length (lines p)) \<le> pos p \<and> ends_EOF (last (lines p)))"

definition EOF_last :: "Item list \<Rightarrow> bool" where
  "EOF_last its = (its \<noteq> [] \<and> Type (last its) = ItemEOF)"


section \<open>Package line: the single-line lexer\<close>

datatype line_ItemType =
  line_Unknown | line_ItemEOF | line_ItemText | line_ItemInt | line_ItemFloat | line_ItemEOL
  | line_ItemSpace

record line_Item =
  line_Type :: line_ItemType
  line_Val :: gostring

record Lexer =
  index :: int
  items :: "line_Item list"

text \<open>
  The variables of the loop of \<^verbatim>\<open>New\<close>: the items so far, the buffer \<^verbatim>\<open>buff\<close> and the two
  flags.
\<close>

record New_vars =
  n_items :: "line_Item list"
  n_buff :: gostring
  n_isNumber :: bool
  n_isFloat :: bool

text \<open>
  The switch that closes the buffer, as it stands in the loop and again after it: the
  buffer becomes an item of the type the flags give, and is reset.
\<close>

definition New_close :: "New_vars \<Rightarrow> New_vars" where
  "New_close v =
     (if n_isNumber v \<and> n_isFloat v
      then v\<lparr>n_items := n_items v @ [\<lparr>line_Type = line_ItemFloat, line_Val = n_buff v\<rparr>], n_buff := []\<rparr>
      else if n_isNumber v
      then v\<lparr>n_items := n_items v @ [\<lparr>line_Type = line_ItemInt, line_Val = n_buff v\<rparr>], n_buff := []\<rparr>
      else v\<lparr>n_items := n_items v @ [\<lparr>line_Type = line_ItemText, line_Val = n_buff v\<rparr>], n_buff := []\<rparr>)"

text \<open>One iteration of \<^verbatim>\<open>for _, r := range line\<close>.\<close>

definition New_body :: "(rune \<Rightarrow> bool) \<Rightarrow> rune \<Rightarrow> New_vars \<Rightarrow> New_vars" where
  "New_body N r v =
     (if IsSpace r then
        (let v1 = (if n_buff v \<noteq> [] then (New_close v)\<lparr>n_isNumber := False, n_isFloat := False\<rparr> else v)
         in if r = 10
            then v1\<lparr>n_items := n_items v1 @ [\<lparr>line_Type = line_ItemEOL, line_Val = [r]\<rparr>]\<rparr>
            else v1\<lparr>n_items := n_items v1 @ [\<lparr>line_Type = line_ItemSpace, line_Val = [r]\<rparr>]\<rparr>)
      else if IsNumber N r then
        (let v1 = (if n_buff v = [] then v\<lparr>n_isNumber := True\<rparr> else v)
         in v1\<lparr>n_buff := n_buff v1 @ [r]\<rparr>)
      else if r = 46 then
        (let v1 = (if n_isNumber v then v\<lparr>n_isFloat := True\<rparr> else v)
         in v1\<lparr>n_buff := n_buff v1 @ [r]\<rparr>)
      else
        (let v1 = v\<lparr>n_isNumber := False, n_isFloat := False\<rparr>;
             v2 = (if length (n_items v1) = 0
                      \<or> (line_Type (last (n_items v1)) = line_ItemSpace \<and> n_buff v1 = [])
                   then (if r = 45 then v1\<lparr>n_isNumber := True\<rparr> else v1)
                   else v1)
         in v2\<lparr>n_buff := n_buff v2 @ [r]\<rparr>))"

fun New_range :: "(rune \<Rightarrow> bool) \<Rightarrow> gostring \<Rightarrow> New_vars \<Rightarrow> New_vars" where
  "New_range N [] v = v"
| "New_range N (r # rs) v = New_range N rs (New_body N r v)"

text \<open>The code of \<^verbatim>\<open>New\<close> after the loop: close the buffer, end with ItemEOL or ItemEOF.\<close>

definition New_end :: "New_vars \<Rightarrow> panic + Lexer" where
  "New_end v =
     (let v1 = (if n_buff v \<noteq> [] then New_close v else v)
      in case go_index (n_items v1) (int (length (n_items v1)) - 1) of
           Inl e \<Rightarrow> Inl e
         | Inr it \<Rightarrow>
             Inr \<lparr>index = 0,
                  items = (if line_Type it \<noteq> line_ItemEOL
                           then n_items v1 @ [\<lparr>line_Type = line_ItemEOF, line_Val = []\<rparr>]
                           else n_items v1)\<rparr>)"

definition New_init :: New_vars where
  "New_init = \<lparr>n_items = [], n_buff = [], n_isNumber = False, n_isFloat = False\<rparr>"

definition New :: "(rune \<Rightarrow> bool) \<Rightarrow> gostring \<Rightarrow> panic + Lexer" where
  "New N line = New_end (New_range N line New_init)"

definition line_Next :: "Lexer \<Rightarrow> panic + (line_Item \<times> Lexer)" where
  "line_Next l =
     (if index l < int (length (items l))
      then (case go_index (items l) (index l) of
              Inl e \<Rightarrow> Inl e
            | Inr item \<Rightarrow>
                Inr (item, if line_Type item \<noteq> line_ItemEOL then l\<lparr>index := index l + 1\<rparr> else l))
      else (case go_index (items l) (int (length (items l)) - 1) of
              Inl e \<Rightarrow> Inl e
            | Inr item \<Rightarrow> Inr (item, l)))"

definition line_Backup :: "Lexer \<Rightarrow> Lexer" where
  "line_Backup l = (if index l - 1 \<ge> 0 then l\<lparr>index := index l - 1\<rparr> else l)"

definition line_Peek :: "Lexer \<Rightarrow> panic + (line_Item \<times> Lexer)" where
  "line_Peek l =
     (case line_Next l of
        Inl e \<Rightarrow> Inl e
      | Inr (n, l1) \<Rightarrow> Inr (n, line_Backup l1))"

definition line_SetIndex :: "Lexer \<Rightarrow> int \<Rightarrow> panic + Lexer" where
  "line_SetIndex l i =
     (if i < 0 then Inl FatalNegativeIndex
      else if i \<ge> int (length (items l)) then Inl FatalIndexOutside
      else Inr (l\<lparr>index := i\<rparr>))"

definition line_Len :: "Lexer \<Rightarrow> int" where
  "line_Len l = int (length (items l))"

definition line_Index :: "Lexer \<Rightarrow> int" where
  "line_Index l = index l"

text \<open>A call of one of the cursor operations, and a sequence of such calls.\<close>

datatype Lexer_call = CallNext | CallBackup | CallPeek | CallSetIndex int

definition Lexer_do :: "Lexer_call \<Rightarrow> Lexer \<Rightarrow> panic + Lexer" where
  "Lexer_do c l =
     (case c of
        CallNext \<Rightarrow> (case line_Next l of Inl e \<Rightarrow> Inl e | Inr (_, l1) \<Rightarrow> Inr l1)
      | CallBackup \<Rightarrow> Inr (line_Backup l)
      | CallPeek \<Rightarrow> (case line_Peek l of Inl e \<Rightarrow> Inl e | Inr (_, l1) \<Rightarrow> Inr l1)
      | CallSetIndex i \<Rightarrow> line_SetIndex l i)"

fun Lexer_calls :: "Lexer_call list \<Rightarrow> Lexer \<Rightarrow> panic + Lexer" where
  "Lexer_calls [] l = Inr l"
| "Lexer_calls (c # cs) l =
     (case Lexer_do c l of
        Inl e \<Rightarrow> Inl e
      | Inr l1 \<Rightarrow> Lexer_calls cs l1)"

definition in_range :: "Lexer \<Rightarrow> Lexer_call \<Rightarrow> bool" where
  "in_range l c = (case c of CallSetIndex i \<Rightarrow> 0 \<le> i \<and> i < line_Len l | _ \<Rightarrow> True)"

text \<open>What the proofs keep of a Lexer: it has items and its index is inside them.\<close>

definition cursor_ok :: "Lexer \<Rightarrow> bool" where
  "cursor_ok l = (items l \<noteq> [] \<and> 0 \<le> line_Index l \<and> line_Index l \<le> line_Len l)"






section \<open>Package line: DecodeList\<close>






text \<open>
  The local variables of \<^verbatim>\<open>Decode\<close>; \<open>d_results\<close> is \<^verbatim>\<open>d.results\<close>, \<open>lastRune\<close> is \<^verbatim>\<open>last\<close>.
  The five runes \<^verbatim>\<open>lc\<close>, \<^verbatim>\<open>rc\<close>, \<^verbatim>\<open>sep\<close>, \<^verbatim>\<open>q\<close> and \<^verbatim>\<open>escape\<close> do not change.
\<close>

record Decode_runes =
  lc_rune :: rune
  rc_rune :: rune
  sep_rune :: rune
  q_rune :: rune
  escape_rune :: rune

record Decode_vars =
  foundLeftConstraint :: bool
  foundRightConstraint :: bool
  inQuote :: bool
  entry :: gostring
  read :: int
  lastRune :: rune
  lastNonSpace :: rune
  d_results :: "gostring list"

text \<open>The deferred function of the closure: it records the rune just read.\<close>

definition Decode_defer :: "rune \<Rightarrow> Decode_vars \<Rightarrow> Decode_vars" where
  "Decode_defer r v = (let v1 = v\<lparr>lastRune := r\<rparr> in if \<not> IsSpace r then v1\<lparr>lastNonSpace := r\<rparr> else v1)"









definition one_entry :: "Decode_runes \<Rightarrow> gostring \<Rightarrow> gostring" where
  "one_entry c body = lc_rune c # q_rune c # body @ [q_rune c, rc_rune c]"

text \<open>The variables of \<^verbatim>\<open>Decode\<close> after \<open>k\<close> runes of \<open>one_entry c body\<close>.\<close>

definition phase :: "Decode_runes \<Rightarrow> gostring \<Rightarrow> gostring list \<Rightarrow> nat \<Rightarrow> Decode_vars \<Rightarrow> bool" where
  "phase c body res k v =
     (read v = int k \<and>
      (if k = 0 then \<not> foundLeftConstraint v \<and> \<not> foundRightConstraint v \<and> \<not> inQuote v \<and>
                     d_results v = res \<and> entry v = []
       else if k = 1 then foundLeftConstraint v \<and> \<not> foundRightConstraint v \<and> \<not> inQuote v \<and>
                     d_results v = res \<and> entry v = [] \<and> lastRune v = lc_rune c
       else if k \<le> length body + 2 then
                     foundLeftConstraint v \<and> \<not> foundRightConstraint v \<and> inQuote v \<and>
                     d_results v = res \<and> entry v = take (k - 2) body \<and>
                     lastRune v = one_entry c body ! (k - 1)
       else if k = length body + 3 then
                     foundLeftConstraint v \<and> \<not> foundRightConstraint v \<and> \<not> inQuote v \<and>
                     d_results v = res @ [body]
       else foundRightConstraint v \<and> d_results v = res @ [body]))"

section \<open>Properties of the Parser\<close>

subsection \<open>Evaluating the lexer\<close>

lemma untilSpace_loop_end:
  "length (l_input l0) \<le> l_pos l0 \<Longrightarrow>
   untilSpace_loop isInt isFloat l0 ln raw0 lst =
     emit ItemEOF [\<lparr>str = raw0 @ [ItemEOF_rune], num = ln\<rparr>] (l0\<lparr>l_width := 0\<rparr>)"
  by (subst untilSpace_loop.simps) (simp add: lexer_next_def ItemEOF_rune_def)

lemma untilSpace_loop_step:
  "l_pos l0 < length (l_input l0) \<Longrightarrow>
   untilSpace_loop isInt isFloat l0 ln raw0 lst =
     (let r = l_input l0 ! l_pos l0; l = l0\<lparr>l_width := 1, l_pos := l_pos l0 + 1\<rparr>; rw = raw0 @ [r] in
      if r = 10 then
        (if lst = ItemUnknown \<or> lst = ItemEOL
         then untilSpace_loop isInt isFloat (ignore l) (ln + 1) rw lst
         else untilSpace_loop isInt isFloat
                (emit ItemEOL [\<lparr>str = rw, num = ln\<rparr>]
                   (snd (lexer_next (emit_span isInt isFloat (lst = itemSpace) (backup l)))))
                (ln + 1) [] ItemEOL)
      else if r = ItemEOF_rune then emit ItemEOF [\<lparr>str = rw, num = ln\<rparr>] l
      else if IsSpace r then
        (if lst = ItemUnknown \<or> lst = ItemEOL \<or> lst = itemSpace
         then untilSpace_loop isInt isFloat (ignore l) ln rw lst
         else untilSpace_loop isInt isFloat
                (ignore (snd (lexer_next (emit_span isInt isFloat False (backup l)))))
                ln rw itemSpace)
      else untilSpace_loop isInt isFloat l ln rw ItemText)"
  by (subst untilSpace_loop.simps) (simp add: lexer_next_def Let_def)

lemmas lex_eval = run_def untilSpace_def newLexer_def lexer_next_def ItemEOF_rune_def IsSpace_def
  emit_def emit_span_def backup_def ignore_def current_def pending_def Let_def
  untilSpace_loop_end untilSpace_loop_step



lemma IsAtStart_range_eq:
  "i + length fs \<le> length its \<Longrightarrow>
   IsAtStart_range its i fs = Inr (\<forall>k < length fs. fs ! k = Skip \<or> fs ! k = Val (its ! (i + k)))"
proof (induction fs arbitrary: i)
  case Nil
  then show ?case by simp
next
  case (Cons f fs)
  have split_all: "\<And>P. (\<forall>k < Suc (length fs). P k) = (P 0 \<and> (\<forall>k < length fs. P (Suc k)))"
    by (metis less_Suc_eq_0_disj)
  from Cons.prems have lt: "i < length its" and rest: "Suc i + length fs \<le> length its"
    by simp_all
  from Cons.IH [OF rest] lt show ?case
    by (auto simp: go_index_def split_all)
qed

text \<open>
  C6. \<^verbatim>\<open>IsAtStart\<close> returns true for an empty pattern, false when the pattern has more
  atoms than the line has items, and otherwise true exactly when every atom of the pattern
  is \<^verbatim>\<open>Skip\<close> or equals the \<^verbatim>\<open>Val\<close> of the item at its position; it never panics.
\<close>

theorem IsAtStart_spec:
  "IsAtStart line [] = Inr True \<and>
   (length (Items line) < length fnd \<longrightarrow> IsAtStart line fnd = Inr False) \<and>
   (length fnd \<le> length (Items line) \<longrightarrow>
      IsAtStart line fnd =
        Inr (\<forall>i < length fnd. fnd ! i = Skip \<or> fnd ! i = Val (Items line ! i)))"
proof (intro conjI impI)
  show "IsAtStart line [] = Inr True"
    by (simp add: IsAtStart_def)
  show "IsAtStart line fnd = Inr False" if "length (Items line) < length fnd"
    using that by (auto simp: IsAtStart_def)
  show "IsAtStart line fnd =
        Inr (\<forall>i < length fnd. fnd ! i = Skip \<or> fnd ! i = Val (Items line ! i))"
    if "length fnd \<le> length (Items line)"
    using that IsAtStart_range_eq [of 0 fnd "Items line"]
    by (auto simp: IsAtStart_def)
qed

theorem IsAtStart_spec_witness:
  "length [Skip, runes ''b''] \<le> length (Items \<lparr>Items = [\<lparr>Type = ItemText, Val = runes ''a'', lineNum = 0, raw = []\<rparr>,
        \<lparr>Type = ItemText, Val = runes ''b'', lineNum = 0, raw = []\<rparr>], LineNum = 0, Raw = []\<rparr>) \<and>
   IsAtStart \<lparr>Items = [\<lparr>Type = ItemText, Val = runes ''a'', lineNum = 0, raw = []\<rparr>,
        \<lparr>Type = ItemText, Val = runes ''b'', lineNum = 0, raw = []\<rparr>], LineNum = 0, Raw = []\<rparr>
      [Skip, runes ''b''] = Inr True \<and>
   length (Items \<lparr>Items = [\<lparr>Type = ItemEOF, Val = [], lineNum = 0, raw = []\<rparr>], LineNum = 0, Raw = []\<rparr>)
     < length [Skip, runes ''b''] \<and>
   IsAtStart \<lparr>Items = [\<lparr>Type = ItemEOF, Val = [], lineNum = 0, raw = []\<rparr>], LineNum = 0, Raw = []\<rparr>
      [Skip, runes ''b''] = Inr False"
  using IsAtStart_spec [of "\<lparr>Items = [\<lparr>Type = ItemText, Val = runes ''a'', lineNum = 0, raw = []\<rparr>,
        \<lparr>Type = ItemText, Val = runes ''b'', lineNum = 0, raw = []\<rparr>], LineNum = 0, Raw = []\<rparr>" "[Skip, runes ''b'']"]
    IsAtStart_spec [of "\<lparr>Items = [\<lparr>Type = ItemEOF, Val = [], lineNum = 0, raw = []\<rparr>], LineNum = 0, Raw = []\<rparr>"
        "[Skip, runes ''b'']"]
  by (simp add: less_Suc_eq_0_disj)

text \<open>
  C1, as the code has it. \<^verbatim>\<open>Errorf\<close> stores its error unconditionally and returns the nil
  ParseFn: after \<^verbatim>\<open>Errorf(m1)\<close> and then \<^verbatim>\<open>Errorf(m2)\<close>, \<^verbatim>\<open>HasError()\<close> reports the error
  of the second call.
\<close>

theorem Errorf_last_wins:
  "HasError (snd (Errorf (snd (Errorf p m1 :: 'o ParseFn option \<times> Parser)) m2
                    :: 'o ParseFn option \<times> Parser)) = Some (Error m2) \<and>
   fst (Errorf p m1 :: 'o ParseFn option \<times> Parser) = None"
  by (simp add: Errorf_def HasError_def)

text \<open>
  C1 as stated fails: the error of the first call does not survive a second call.
\<close>

theorem Errorf_first_overwritten:
  "HasError (snd (Errorf (snd (Errorf (newParser []) ''first'' :: unit ParseFn option \<times> Parser))
                    ''second'' :: unit ParseFn option \<times> Parser))
     \<noteq> Some (Error ''first'')"
  by (simp add: Errorf_def HasError_def)

text \<open>
  C2. When the step loop of \<^verbatim>\<open>Parse\<close> ends in the object \<open>ob1\<close> and the Parser \<open>p1\<close>:
  with a sticky error set, \<^verbatim>\<open>Parse\<close> returns it and the object is as the steps left it
  (\<^verbatim>\<open>Validate\<close> has not run); with none set, \<^verbatim>\<open>Parse\<close> returns what \<^verbatim>\<open>Validate\<close> returns,
  its error or nil.
\<close>

theorem Parse_result:
  assumes "Parse_loop (Some Start) ob (go_run isInt isFloat (newParser content)) = Some (Inr (ob1, p1))"
  shows "(\<forall>e. HasError p1 = Some e \<longrightarrow>
            Parse isInt isFloat content Start Validate ob = Some (Inr (Some e, ob1))) \<and>
         (HasError p1 = None \<longrightarrow>
            Parse isInt isFloat content Start Validate ob = Some (Inr (Validate ob1)))"
  using assms by (auto simp: Parse_def split: option.splits prod.splits)

theorem Parse_result_witness:
  "Parse_loop (Some (ParseFn (\<lambda>ob p. Inr (fst (Errorf p ''bad''), ob, snd (Errorf p ''bad'' :: nat ParseFn option \<times> Parser)))))
      (0::nat) (go_run (\<lambda>s. False) (\<lambda>s. False) (newParser (runes ''a'')))
     = Some (Inr (0, (go_run (\<lambda>s. False) (\<lambda>s. False) (newParser (runes ''a'')))\<lparr>err := Some (Error ''bad'')\<rparr>)) \<and>
   Parse (\<lambda>s. False) (\<lambda>s. False) (runes ''a'')
      (ParseFn (\<lambda>ob p. Inr (fst (Errorf p ''bad''), ob, snd (Errorf p ''bad'' :: nat ParseFn option \<times> Parser))))
      (\<lambda>ob. (None, Suc ob)) (0::nat)
     = Some (Inr (Some (Error ''bad''), 0)) \<and>
   Parse_loop (Some (ParseFn (\<lambda>ob p. Inr (None, Suc ob, p))))
      (0::nat) (go_run (\<lambda>s. False) (\<lambda>s. False) (newParser (runes ''a'')))
     = Some (Inr (1, go_run (\<lambda>s. False) (\<lambda>s. False) (newParser (runes ''a'')))) \<and>
   Parse (\<lambda>s. False) (\<lambda>s. False) (runes ''a'')
      (ParseFn (\<lambda>ob p. Inr (None, Suc ob, p)))
      (\<lambda>ob. (if ob = 0 then None else Some (Error ''invalid''), ob + 10)) (0::nat)
     = Some (Inr (Some (Error ''invalid''), 11))"
proof -
  have h: "Parse_loop (Some (ParseFn (\<lambda>ob p. Inr (fst (Errorf p ''bad''), ob, snd (Errorf p ''bad'' :: nat ParseFn option \<times> Parser)))))
      (0::nat) (go_run (\<lambda>s. False) (\<lambda>s. False) (newParser (runes ''a'')))
     = Some (Inr (0, (go_run (\<lambda>s. False) (\<lambda>s. False) (newParser (runes ''a'')))\<lparr>err := Some (Error ''bad'')\<rparr>))"
    by (simp add: Parse_loop.simps Errorf_def)
  have g: "Parse_loop (Some (ParseFn (\<lambda>ob p. Inr (None, Suc ob, p))))
      (0::nat) (go_run (\<lambda>s. False) (\<lambda>s. False) (newParser (runes ''a'')))
     = Some (Inr (1, go_run (\<lambda>s. False) (\<lambda>s. False) (newParser (runes ''a''))))"
    by (simp add: Parse_loop.simps)
  have e: "HasError (go_run (\<lambda>s. False) (\<lambda>s. False) (newParser (runes ''a''))) = None"
    by (simp add: HasError_def go_run_def newParser_def)
  show ?thesis
    using h g e Parse_result [OF h, of "\<lambda>ob. (None, Suc ob)"]
      Parse_result [OF g, of "\<lambda>ob. (if ob = 0 then None else Some (Error ''invalid''), ob + 10)"]
    by (simp add: HasError_def)
qed


subsection \<open>Next and Backup\<close>

lemma emit_EOF_last: "EOF_last (l_items (emit ItemEOF ri l))"
  by (cases ri) (simp_all add: emit_def EOF_last_def)

lemma untilSpace_loop_EOF: "EOF_last (l_items (untilSpace_loop isInt isFloat l ln rw lst))"
proof (induction isInt isFloat l ln rw lst rule: untilSpace_loop.induct)
  case (1 isInt isFloat l0 ln raw0 lst)
  note IH = "1.IH" [OF refl refl refl]
  show ?case
    by (subst untilSpace_loop.simps) (use IH in \<open>auto simp: Let_def emit_EOF_last ItemEOF_rune_def\<close>)
qed

lemma run_EOF:
  "l_items (run isInt isFloat l) \<noteq> [] \<and> Type (last (l_items (run isInt isFloat l))) = ItemEOF"
  using untilSpace_loop_EOF [of isInt isFloat l 0 "[]" ItemUnknown]
  by (simp add: run_def untilSpace_def EOF_last_def)

lemma pull_range_ok:
  "rc \<noteq> [] \<Longrightarrow> Type (last rc) = ItemEOF \<Longrightarrow> pull_range rc line = (line', rest) \<Longrightarrow>
   Items line' \<noteq> [] \<and>
   (if rest = [] then Type (last (Items line')) = ItemEOF else Type (last rest) = ItemEOF)"
proof (induction rc arbitrary: line)
  case Nil
  then show ?case by simp
next
  case (Cons item rc)
  show ?case
  proof (cases "Type item = ItemEOF \<or> Type item = ItemEOL")
    case True
    with Cons.prems show ?thesis by (auto split: if_splits)
  next
    case False
    with Cons.prems have "rc \<noteq> []" by (auto split: if_splits)
    with Cons.prems False Cons.IH [of "line\<lparr>Items := Items line @ [item]\<rparr>"] show ?thesis
      by (auto split: if_splits)
  qed
qed


lemma nat_int_pred: "nat (int n - 1) = n - Suc 0"
  by auto

lemma EOF_ends: "Items l \<noteq> [] \<Longrightarrow> EOF l = Inr (ends_EOF l)"
  by (simp add: EOF_def go_index_def ends_EOF_def last_conv_nth nat_int_pred)

lemma pull_ok:
  assumes "recv p \<noteq> []" "Type (last (recv p)) = ItemEOF" "pull p = (line, p1)"
  shows "Items line \<noteq> [] \<and> lines p1 = lines p \<and> pos p1 = pos p \<and>
         (if recv p1 = [] then ends_EOF line else Type (last (recv p1)) = ItemEOF)"
proof -
  obtain ln rest where pr: "pull_range (recv p) \<lparr>Items = [], LineNum = 0, Raw = []\<rparr> = (ln, rest)"
    by (cases "pull_range (recv p) \<lparr>Items = [], LineNum = 0, Raw = []\<rparr>") simp
  from assms(3) pr have eq: "line = ln" "p1 = p\<lparr>recv := rest\<rparr>"
    by (simp_all add: pull_def)
  from pull_range_ok [OF assms(1,2) pr] eq show ?thesis
    by (auto simp: ends_EOF_def split: if_splits)
qed

lemma Next_step:
  assumes ok: "buffer_ok p" and ne: "\<not> at_end p"
  shows "\<exists>l p1. Next p = Inr (l, p1) \<and> buffer_ok p1 \<and> pos p1 = pos p + 1 \<and>
           (\<exists>ext. lines p1 = lines p @ ext) \<and> nat (pos p) < length (lines p1) \<and>
           l = lines p1 ! nat (pos p)"
proof (cases "int (length (lines p)) \<le> pos p")
  case True
  with ok have posl: "pos p = int (length (lines p))"
    by (simp add: buffer_ok_def)
  from ok have items: "list_all (\<lambda>l. Items l \<noteq> []) (lines p)"
    by (simp add: buffer_ok_def)
  have notend: "lines p \<noteq> [] \<Longrightarrow> \<not> ends_EOF (last (lines p))"
    using ne posl by (simp add: at_end_def)
  with ok have rc: "recv p \<noteq> []" "Type (last (recv p)) = ItemEOF"
    by (auto simp: buffer_ok_def split: if_splits)
  obtain line q where pl: "pull p = (line, q)"
    by (cases "pull p") simp
  note pk = pull_ok [OF rc pl]
  have adv: "Next_advance p = Inr (line, q\<lparr>lines := lines p @ [line], pos := pos p + 1\<rparr>)"
    using posl pl pk by (simp add: Next_advance_def go_index_def)
  have okq: "buffer_ok (q\<lparr>lines := lines p @ [line], pos := pos p + 1\<rparr>)"
    using pk posl items by (auto simp: buffer_ok_def split: if_splits)
  show ?thesis
  proof (cases "lines p = []")
    case True
    with posl pl pk have "Next p = Inr (line, q\<lparr>lines := lines p @ [line], pos := pos p + 1\<rparr>)"
      by (simp add: Next_def go_index_def)
    with okq posl show ?thesis by simp
  next
    case False
    with items have "Items (last (lines p)) \<noteq> []"
      by (simp add: list_all_iff)
    with False notend have "EOF (last (lines p)) = Inr False"
      by (simp add: EOF_ends)
    with False posl adv have "Next p = Inr (line, q\<lparr>lines := lines p @ [line], pos := pos p + 1\<rparr>)"
      by (simp add: Next_def go_index_def last_conv_nth nat_int_pred Let_def)
    with okq posl show ?thesis by simp
  qed
next
  case False
  with ok have lt: "0 \<le> pos p" "pos p < int (length (lines p))"
    by (simp_all add: buffer_ok_def)
  then have "Next p = Inr (lines p ! nat (pos p), p\<lparr>pos := pos p + 1\<rparr>)"
    by (auto simp: Next_def Next_advance_def go_index_def)
  moreover from ok lt have "buffer_ok (p\<lparr>pos := pos p + 1\<rparr>)"
    by (simp add: buffer_ok_def)
  ultimately show ?thesis using lt by simp
qed

lemma Next_at_end:
  assumes ok: "buffer_ok p" and ae: "at_end p"
  shows "Next p = Inr (last (lines p), p)"
proof -
  from ae have ne: "lines p \<noteq> []" and ge: "int (length (lines p)) \<le> pos p"
    and e: "ends_EOF (last (lines p))"
    by (simp_all add: at_end_def)
  from e have "EOF (last (lines p)) = Inr True"
    by (simp add: EOF_ends ends_EOF_def)
  with ne ge show ?thesis
    by (simp add: Next_def go_index_def last_conv_nth nat_int_pred Let_def)
qed

lemma Next_total:
  "buffer_ok p \<Longrightarrow> \<exists>l p1. Next p = Inr (l, p1) \<and> buffer_ok p1"
  using Next_step [of p] Next_at_end [of p] by (cases "at_end p") auto

lemma Next_times_total:
  "buffer_ok p \<Longrightarrow> \<exists>ls p1. Next_times n p = Inr (ls, p1) \<and> buffer_ok p1"
proof (induction n arbitrary: p)
  case 0
  then show ?case by simp
next
  case (Suc n)
  from Next_total [OF Suc.prems] obtain l q where q: "Next p = Inr (l, q)" "buffer_ok q"
    by blast
  from Suc.IH [OF q(2)] obtain ls p1 where "Next_times n q = Inr (ls, p1)" "buffer_ok p1"
    by blast
  with q show ?case by simp
qed

lemma Backup_times_add:
  "Backup_times (n + m) q =
     (case Backup_times n q of
        Inl e \<Rightarrow> Inl e
      | Inr (bs, q1) \<Rightarrow>
          (case Backup_times m q1 of
             Inl e \<Rightarrow> Inl e
           | Inr (cs, q2) \<Rightarrow> Inr (bs @ cs, q2)))"
  by (induction n arbitrary: q) (simp_all split: sum.splits prod.splits)

lemma Backup_times_snoc:
  "Backup_times (Suc n) q =
     (case Backup_times n q of
        Inl e \<Rightarrow> Inl e
      | Inr (bs, q1) \<Rightarrow>
          (case Backup q1 of
             Inl e \<Rightarrow> Inl e
           | Inr (b, q2) \<Rightarrow> Inr (bs @ [b], q2)))"
  using Backup_times_add [of n "Suc 0" q]
  by (simp split: sum.splits prod.splits)


lemma Backup_ok:
  "0 < pos q \<Longrightarrow> pos q \<le> int (length (lines q)) \<Longrightarrow>
   Backup q = Inr (lines q ! nat (pos q - 1), q\<lparr>pos := pos q - 1\<rparr>)"
  by (simp add: Backup_def go_index_def Let_def)

lemma roundtrip_gen:
  assumes "buffer_ok p" and "0 < n \<longrightarrow> \<not> at_end p"
    and "Next_times n p = Inr (ls, p1)"
    and "\<forall>l \<in> set (butlast ls). EOF l \<noteq> Inr True"
  shows "Backup_times n p1 = Inr (rev ls, p1\<lparr>pos := pos p\<rparr>) \<and>
         (\<exists>ext. lines p1 = lines p @ ext) \<and> pos p1 = pos p + int n"
  using assms
proof (induction n arbitrary: p ls)
  case 0
  then show ?case by auto
next
  case (Suc n)
  from Suc.prems(2) have ne: "\<not> at_end p" by simp
  from Next_step [OF Suc.prems(1) ne] obtain l q where
    q: "Next p = Inr (l, q)" "buffer_ok q" "pos q = pos p + 1"
    and ext: "\<exists>ext. lines q = lines p @ ext"
    and l: "nat (pos p) < length (lines q)" "l = lines q ! nat (pos p)"
    by blast
  from Suc.prems(3) q(1) obtain ls' where
    ls: "Next_times n q = Inr (ls', p1)" "ls = l # ls'"
    by (auto split: sum.splits prod.splits)
  have nq: "0 < n \<longrightarrow> \<not> at_end q"
  proof
    assume n: "0 < n"
    with ls(1) have "ls' \<noteq> []"
      by (cases n) (auto split: sum.splits prod.splits)
    with Suc.prems(4) ls(2) have nl: "EOF l \<noteq> Inr True" by simp
    from q(2) l have "Items l \<noteq> []"
      by (simp add: buffer_ok_def list_all_length)
    with nl have ne: "\<not> ends_EOF l" by (simp add: EOF_ends)
    show "\<not> at_end q"
    proof
      assume ae: "at_end q"
      with q(2) have "pos q = int (length (lines q))"
        by (simp add: at_end_def buffer_ok_def)
      with q(3) have "pos p = int (length (lines q)) - 1" by simp
      then have "nat (pos p) = length (lines q) - Suc 0" by (simp add: nat_int_pred)
      with l ae have "last (lines q) = l"
        by (simp add: last_conv_nth at_end_def)
      with ae ne show False by (simp add: at_end_def)
    qed
  qed
  have bl: "\<forall>l \<in> set (butlast ls'). EOF l \<noteq> Inr True"
    using Suc.prems(4) ls(2) by (auto split: if_splits)
  from Suc.IH [OF q(2) nq ls(1) bl] have
    ih: "Backup_times n p1 = Inr (rev ls', p1\<lparr>pos := pos q\<rparr>)"
    and ext1: "\<exists>ext. lines p1 = lines q @ ext" and pos1: "pos p1 = pos q + int n"
    by blast+
  from Suc.prems(1) have p0: "0 \<le> pos p" by (simp add: buffer_ok_def)
  from ext1 l have l1: "lines p1 ! nat (pos p) = l" "pos p + 1 \<le> int (length (lines p1))"
    by (auto simp: nth_append)
  with p0 q(3) have "Backup (p1\<lparr>pos := pos q\<rparr>) = Inr (l, p1\<lparr>pos := pos p\<rparr>)"
    by (simp add: Backup_ok)
  with ih ls(2) have "Backup_times (Suc n) p1 = Inr (rev ls, p1\<lparr>pos := pos p\<rparr>)"
    by (simp add: Backup_times_snoc del: Backup_times.simps)
  moreover from ext ext1 have "\<exists>ext. lines p1 = lines p @ ext" by auto
  ultimately show ?case using pos1 q(3) by simp
qed

lemma fresh_buffer_ok: "buffer_ok (go_run isInt isFloat (newParser inp))"
  using run_EOF [of isInt isFloat "newLexer inp"]
  by (simp add: buffer_ok_def go_run_def newParser_def)

lemma fresh_not_at_end: "\<not> at_end (go_run isInt isFloat (newParser inp))"
  by (simp add: at_end_def go_run_def newParser_def)

text \<open>
  C5, as the code has it. From a fresh Parser, \<open>n\<close> calls of \<^verbatim>\<open>Next()\<close> never fail, for
  every input and every \<open>n\<close>. When none of the lines they return, the last one apart, is
  the end-of-input line, the \<open>n\<close> calls of \<^verbatim>\<open>Backup()\<close> that follow do not fail either,
  return the same lines in reverse order and leave the cursor where it started.
\<close>

theorem Next_Backup_roundtrip:
  "\<exists>ls p1. Next_times n (go_run isInt isFloat (newParser inp)) = Inr (ls, p1) \<and>
      ((\<forall>l \<in> set (butlast ls). EOF l \<noteq> Inr True) \<longrightarrow>
         Backup_times n p1 = Inr (rev ls, p1\<lparr>pos := 0\<rparr>))"
proof -
  let ?p = "go_run isInt isFloat (newParser inp)"
  from Next_times_total [OF fresh_buffer_ok] obtain ls p1 where
    nt: "Next_times n ?p = Inr (ls, p1)" by blast
  have "pos ?p = 0" by (simp add: go_run_def newParser_def)
  with roundtrip_gen [OF fresh_buffer_ok _ nt] fresh_not_at_end [of isInt isFloat inp] nt
  show ?thesis by auto
qed

subsection \<open>Concrete runs\<close>

lemma run_a:
  "l_items (run isInt isFloat (newLexer [97])) =
     [\<lparr>Type = ItemEOF, Val = [97], lineNum = 0, raw = [97, 1]\<rparr>]"
  by (simp add: lex_eval)

lemma run_a_nl:
  "l_items (run isInt isFloat (newLexer [97, 10])) =
     [\<lparr>Type = (if isInt [97] then ItemInt else if isFloat [97] then ItemFloat else ItemText),
        Val = [97], lineNum = 0, raw = []\<rparr>,
      \<lparr>Type = ItemEOL, Val = [10], lineNum = 0, raw = [97, 10]\<rparr>,
      \<lparr>Type = ItemEOF, Val = [], lineNum = 1, raw = [1]\<rparr>]"
  by (cases "isInt [97]"; cases "isFloat [97]") (simp_all add: lex_eval)

lemma run_a_nl_b:
  "l_items (run (\<lambda>s. False) (\<lambda>s. False) (newLexer [97, 10, 98])) =
     [\<lparr>Type = ItemText, Val = [97], lineNum = 0, raw = []\<rparr>,
      \<lparr>Type = ItemEOL, Val = [10], lineNum = 0, raw = [97, 10]\<rparr>,
      \<lparr>Type = ItemEOF, Val = [98], lineNum = 1, raw = [98, 1]\<rparr>]"
  by (simp add: lex_eval)

lemma Next_times_2:
  "Next_times 2 p =
     (case Next p of
        Inl e \<Rightarrow> Inl e
      | Inr (l1, p1) \<Rightarrow>
          (case Next p1 of
             Inl e \<Rightarrow> Inl e
           | Inr (l2, p2) \<Rightarrow> Inr ([l1, l2], p2)))"
  by (simp add: numeral_2_eq_2 split: sum.splits prod.splits)

lemma Backup_times_2:
  "Backup_times 2 p =
     (case Backup p of
        Inl e \<Rightarrow> Inl e
      | Inr (l1, p1) \<Rightarrow>
          (case Backup p1 of
             Inl e \<Rightarrow> Inl e
           | Inr (l2, p2) \<Rightarrow> Inr ([l1, l2], p2)))"
  by (simp add: numeral_2_eq_2 split: sum.splits prod.splits)

theorem Next_Backup_roundtrip_witness:
  "\<exists>ls p1. Next_times 2 (go_run (\<lambda>s. False) (\<lambda>s. False) (newParser (runes ''a\<newline>b''))) = Inr (ls, p1) \<and>
      length ls = 2 \<and> list_all (\<lambda>l. EOF l \<noteq> Inr True) (butlast ls) \<and>
      Backup_times 2 p1 = Inr (rev ls, p1\<lparr>pos := 0\<rparr>)"
proof -
  from Next_Backup_roundtrip [of 2 "\<lambda>s. False" "\<lambda>s. False" "runes ''a\<newline>b''"]
  obtain ls p1 where
    nt: "Next_times 2 (go_run (\<lambda>s. False) (\<lambda>s. False) (newParser (runes ''a\<newline>b''))) = Inr (ls, p1)"
    and imp: "(\<forall>l \<in> set (butlast ls). EOF l \<noteq> Inr True) \<Longrightarrow>
         Backup_times 2 p1 = Inr (rev ls, p1\<lparr>pos := 0\<rparr>)"
    by blast
  have ev: "Next_times 2 (go_run (\<lambda>s. False) (\<lambda>s. False) (newParser (runes ''a\<newline>b''))) =
     Inr ([\<lparr>Items = [\<lparr>Type = ItemText, Val = [97], lineNum = 0, raw = []\<rparr>,
                       \<lparr>Type = ItemEOL, Val = [10], lineNum = 0, raw = []\<rparr>],
             LineNum = 0, Raw = [97, 10]\<rparr>,
           \<lparr>Items = [\<lparr>Type = ItemEOF, Val = [98], lineNum = 0, raw = []\<rparr>],
             LineNum = 1, Raw = [98, 1]\<rparr>],
          \<lparr>lines = [\<lparr>Items = [\<lparr>Type = ItemText, Val = [97], lineNum = 0, raw = []\<rparr>,
                       \<lparr>Type = ItemEOL, Val = [10], lineNum = 0, raw = []\<rparr>],
             LineNum = 0, Raw = [97, 10]\<rparr>,
           \<lparr>Items = [\<lparr>Type = ItemEOF, Val = [98], lineNum = 0, raw = []\<rparr>],
             LineNum = 1, Raw = [98, 1]\<rparr>], pos = 2, recv = [], lex = newLexer [97, 10, 98], err = None\<rparr>)"
    using run_a_nl_b
    by (simp add: Next_times_2 Next_def Next_advance_def EOF_def go_run_def newParser_def pull_def go_index_def runes_def Let_def)
  with nt have ls: "ls = [\<lparr>Items = [\<lparr>Type = ItemText, Val = [97], lineNum = 0, raw = []\<rparr>,
                       \<lparr>Type = ItemEOL, Val = [10], lineNum = 0, raw = []\<rparr>],
             LineNum = 0, Raw = [97, 10]\<rparr>,
           \<lparr>Items = [\<lparr>Type = ItemEOF, Val = [98], lineNum = 0, raw = []\<rparr>],
             LineNum = 1, Raw = [98, 1]\<rparr>]"
    by simp
  then have hyp: "\<forall>l \<in> set (butlast ls). EOF l \<noteq> Inr True"
    by (simp add: EOF_def go_index_def)
  from imp [OF hyp] nt ls hyp show ?thesis
    by (auto simp: list_all_iff)
qed

text \<open>
  C5 as stated fails past the end of the input: on the one-line input \<^verbatim>\<open>a\<close> the second
  \<^verbatim>\<open>Next()\<close> returns the end-of-input line again without moving the cursor, and the second
  \<^verbatim>\<open>Backup()\<close> panics.
\<close>

theorem roundtrip_past_end_panics:
  "Next_times 2 (go_run (\<lambda>s. False) (\<lambda>s. False) (newParser (runes ''a''))) =
     Inr ([\<lparr>Items = [\<lparr>Type = ItemEOF, Val = runes ''a'', lineNum = 0, raw = []\<rparr>],
             LineNum = 0, Raw = [97, 1]\<rparr>,
           \<lparr>Items = [\<lparr>Type = ItemEOF, Val = runes ''a'', lineNum = 0, raw = []\<rparr>],
             LineNum = 0, Raw = [97, 1]\<rparr>],
          \<lparr>lines = [\<lparr>Items = [\<lparr>Type = ItemEOF, Val = runes ''a'', lineNum = 0, raw = []\<rparr>],
                      LineNum = 0, Raw = [97, 1]\<rparr>],
           pos = 1, recv = [], lex = newLexer (runes ''a''), err = None\<rparr>) \<and>
   Backup_times 2
     \<lparr>lines = [\<lparr>Items = [\<lparr>Type = ItemEOF, Val = runes ''a'', lineNum = 0, raw = []\<rparr>],
                      LineNum = 0, Raw = [97, 1]\<rparr>],
           pos = 1, recv = [], lex = newLexer (runes ''a''), err = None\<rparr> = Inl BackupAtZero"
  using run_a [of "\<lambda>s. False" "\<lambda>s. False"]
  by (simp add: Next_times_2 Backup_times_2 Backup_def Next_def EOF_def go_run_def newParser_def pull_def go_index_def runes_def Let_def)

text \<open>
  C3 on the input \<^verbatim>\<open>a\n\<close>, whose first physical line is not blank: the line that
  \<^verbatim>\<open>Next()\<close> delivers has \<^verbatim>\<open>LineNum\<close> 0, for \<^verbatim>\<open>untilSpace\<close> counts lines from 0.
\<close>

theorem first_line_LineNum_zero:
  "(case Next (go_run isInt isFloat (newParser (runes ''a\<newline>''))) of
      Inl e \<Rightarrow> False
    | Inr (line, p) \<Rightarrow> LineNum line = 0 \<and> Raw line = runes ''a\<newline>'')"
  using run_a_nl [of isInt isFloat]
  by (simp add: Next_def go_run_def newParser_def pull_def go_index_def runes_def)

text \<open>
  C4 at the end of the input \<^verbatim>\<open>a\<close>: after the first \<^verbatim>\<open>Next()\<close> the cursor is 1; there
  \<^verbatim>\<open>Peek()\<close> returns the end-of-input line, as \<^verbatim>\<open>Next()\<close> would, and leaves the cursor at 0.
\<close>

theorem Peek_at_end_moves_cursor:
  "Next (go_run isInt isFloat (newParser (runes ''a''))) =
     Inr (\<lparr>Items = [\<lparr>Type = ItemEOF, Val = runes ''a'', lineNum = 0, raw = []\<rparr>],
           LineNum = 0, Raw = [97, 1]\<rparr>,
          \<lparr>lines = [\<lparr>Items = [\<lparr>Type = ItemEOF, Val = runes ''a'', lineNum = 0, raw = []\<rparr>],
                      LineNum = 0, Raw = [97, 1]\<rparr>],
           pos = 1, recv = [], lex = newLexer (runes ''a''), err = None\<rparr>) \<and>
   Peek \<lparr>lines = [\<lparr>Items = [\<lparr>Type = ItemEOF, Val = runes ''a'', lineNum = 0, raw = []\<rparr>],
                      LineNum = 0, Raw = [97, 1]\<rparr>],
           pos = 1, recv = [], lex = newLexer (runes ''a''), err = None\<rparr> =
     Inr (\<lparr>Items = [\<lparr>Type = ItemEOF, Val = runes ''a'', lineNum = 0, raw = []\<rparr>],
           LineNum = 0, Raw = [97, 1]\<rparr>,
          \<lparr>lines = [\<lparr>Items = [\<lparr>Type = ItemEOF, Val = runes ''a'', lineNum = 0, raw = []\<rparr>],
                      LineNum = 0, Raw = [97, 1]\<rparr>],
           pos = 0, recv = [], lex = newLexer (runes ''a''), err = None\<rparr>)"
  using run_a [of isInt isFloat]
  by (simp add: Peek_def Backup_def Next_def EOF_def go_run_def newParser_def pull_def go_index_def runes_def Let_def)

section \<open>Properties of the single-line lexer\<close>

lemma New_range_append: "New_range N (xs @ ys) v = New_range N ys (New_range N xs v)"
  by (induction xs arbitrary: v) simp_all






lemma go_index_last: "xs \<noteq> [] \<Longrightarrow> go_index xs (int (length xs) - 1) = Inr (last xs)"
  by (simp add: go_index_def last_conv_nth nat_int_pred)

lemma New_end_last:
  assumes "n_items v \<noteq> [] \<or> n_buff v \<noteq> []"
  shows "\<exists>its. New_end v = Inr \<lparr>index = 0, items = its\<rparr> \<and> its \<noteq> [] \<and>
           line_Type (last its) =
             (if n_buff v = [] \<and> line_Type (last (n_items v)) = line_ItemEOL
              then line_ItemEOL else line_ItemEOF)"
proof (cases "n_buff v = []")
  case True
  with assms have "n_items v \<noteq> []" by simp
  with True show ?thesis
    by (simp add: New_end_def go_index_last)
next
  case False
  have "n_items (New_close v) \<noteq> []" "line_Type (last (n_items (New_close v))) \<noteq> line_ItemEOL"
    by (simp_all add: New_close_def)
  with False show ?thesis
    by (simp add: New_end_def go_index_last)
qed

lemma New_body_space:
  "IsSpace r \<Longrightarrow> n_buff (New_body N r v) = [] \<and> n_items (New_body N r v) \<noteq> [] \<and>
     line_Type (last (n_items (New_body N r v))) = (if r = 10 then line_ItemEOL else line_ItemSpace)"
  by (simp add: New_body_def New_close_def Let_def)

lemma New_body_other: "\<not> IsSpace r \<Longrightarrow> n_buff (New_body N r v) \<noteq> []"
  by (simp add: New_body_def Let_def)

lemma New_nonempty_terminal:
  assumes "line \<noteq> []"
  shows "\<exists>its. New N line = Inr \<lparr>index = 0, items = its\<rparr> \<and> its \<noteq> [] \<and>
           line_Type (last its) = (if last line = 10 then line_ItemEOL else line_ItemEOF)"
proof -
  from assms obtain p r where pr: "line = p @ [r]" by (metis rev_exhaust)
  let ?v = "New_body N r (New_range N p New_init)"
  have nw: "New N line = New_end ?v"
    by (simp add: New_def pr New_range_append)
  have sp: "IsSpace 10" by (simp add: IsSpace_def)
  show ?thesis
  proof (cases "IsSpace r")
    case True
    note b = New_body_space [OF True, of N "New_range N p New_init"]
    from b New_end_last [of ?v] nw pr show ?thesis by auto
  next
    case False
    with sp have "r \<noteq> 10" by auto
    with New_body_other [OF False, of N "New_range N p New_init"] New_end_last [of ?v] nw pr
    show ?thesis by auto
  qed
qed

text \<open>
  C8 on the empty string: no rune is read, \<^verbatim>\<open>items\<close> stays empty, and
  \<^verbatim>\<open>items[len(items)-1]\<close> panics. For every other input \<^verbatim>\<open>New\<close> returns, see
  \<open>New_nonempty_terminal\<close>.
\<close>

theorem New_empty_string_panics: "New N [] = Inl IndexOutOfRange"
  by (simp add: New_def New_end_def New_init_def go_index_def)

lemma New_cursor_ok: "New N line = Inr l0 \<Longrightarrow> cursor_ok l0 \<and> index l0 = 0"
  by (auto simp: New_def New_end_def Let_def cursor_ok_def line_Index_def line_Len_def go_index_def
           split: sum.splits if_splits)

lemma line_Next_ok:
  assumes "cursor_ok l"
  shows "\<exists>it l1. line_Next l = Inr (it, l1) \<and> cursor_ok l1 \<and> items l1 = items l"
  using assms
  by (auto simp: line_Next_def cursor_ok_def line_Index_def line_Len_def go_index_def)

lemma line_Backup_ok: "cursor_ok l \<Longrightarrow> cursor_ok (line_Backup l) \<and> items (line_Backup l) = items l"
  by (auto simp: line_Backup_def cursor_ok_def line_Index_def line_Len_def)

lemma Lexer_do_ok:
  assumes "cursor_ok l" "in_range l c"
  shows "\<exists>l1. Lexer_do c l = Inr l1 \<and> cursor_ok l1 \<and> items l1 = items l"
proof (cases c)
  case CallNext
  with line_Next_ok [OF assms(1)] show ?thesis by (auto simp: Lexer_do_def)
next
  case CallBackup
  with line_Backup_ok [OF assms(1)] show ?thesis by (auto simp: Lexer_do_def)
next
  case CallPeek
  from line_Next_ok [OF assms(1)] obtain it l1 where
    n: "line_Next l = Inr (it, l1)" "cursor_ok l1" "items l1 = items l" by blast
  with line_Backup_ok [OF n(2)] CallPeek show ?thesis
    by (auto simp: Lexer_do_def line_Peek_def)
next
  case (CallSetIndex i)
  with assms show ?thesis
    by (auto simp: Lexer_do_def line_SetIndex_def in_range_def cursor_ok_def line_Index_def line_Len_def)
qed

lemma Lexer_calls_ok:
  "cursor_ok l \<Longrightarrow> list_all (in_range l) cs \<Longrightarrow>
   \<exists>l1. Lexer_calls cs l = Inr l1 \<and> cursor_ok l1 \<and> items l1 = items l"
proof (induction cs arbitrary: l)
  case Nil
  then show ?case by simp
next
  case (Cons c cs)
  from Cons.prems have c: "in_range l c" and cs: "list_all (in_range l) cs" by simp_all
  from Lexer_do_ok [OF Cons.prems(1) c] obtain l1 where
    l1: "Lexer_do c l = Inr l1" "cursor_ok l1" "items l1 = items l" by blast
  from l1(3) have "in_range l1 = in_range l"
    by (auto simp: in_range_def line_Len_def fun_eq_iff split: Lexer_call.splits)
  with cs have "list_all (in_range l1) cs" by simp
  from Cons.IH [OF l1(2) this] l1 show ?case by auto
qed

text \<open>
  C10. For a Lexer that \<^verbatim>\<open>New\<close> returned and every sequence of \<^verbatim>\<open>Next\<close>, \<^verbatim>\<open>Backup\<close>, \<^verbatim>\<open>Peek\<close>
  and in-range \<^verbatim>\<open>SetIndex\<close> calls, no call fails and afterwards \<open>0 \<le> Index() \<le> Len()\<close>;
  \<^verbatim>\<open>Backup\<close> at index 0 leaves the index at 0, where \<^verbatim>\<open>Parser.Backup\<close> panics at cursor 0,
  and \<^verbatim>\<open>Next\<close> at an ItemEOL returns it and leaves the Lexer as it is. The sequence is
  arbitrary, so this holds after each of its prefixes.
\<close>

theorem Lexer_cursor_in_range:
  assumes "New N line = Inr l0" and "list_all (in_range l0) cs"
  shows "\<exists>l. Lexer_calls cs l0 = Inr l \<and> line_Len l = line_Len l0 \<and>
           0 \<le> line_Index l \<and> line_Index l \<le> line_Len l \<and>
           (line_Index l = 0 \<longrightarrow> line_Index (line_Backup l) = 0) \<and>
           (pos p = 0 \<longrightarrow> Backup p = Inl BackupAtZero) \<and>
           (\<forall>it. go_index (items l) (line_Index l) = Inr it \<and> line_Type it = line_ItemEOL
                 \<longrightarrow> line_Next l = Inr (it, l))"
proof -
  from New_cursor_ok [OF assms(1)] have "cursor_ok l0" by simp
  from Lexer_calls_ok [OF this assms(2)] obtain l where
    l: "Lexer_calls cs l0 = Inr l" "cursor_ok l" "items l = items l0" by blast
  have "line_Index l = 0 \<longrightarrow> line_Index (line_Backup l) = 0"
    by (simp add: line_Backup_def line_Index_def)
  moreover have "\<forall>it. go_index (items l) (line_Index l) = Inr it \<and> line_Type it = line_ItemEOL
                 \<longrightarrow> line_Next l = Inr (it, l)"
    by (auto simp: line_Next_def line_Index_def go_index_def split: if_splits)
  moreover have "pos p = 0 \<longrightarrow> Backup p = Inl BackupAtZero"
    by (simp add: Backup_def)
  ultimately show ?thesis using l
    by (auto simp: cursor_ok_def line_Len_def)
qed

theorem Lexer_cursor_in_range_witness:
  "New (\<lambda>r. False) (runes ''a\<newline>'') =
     Inr \<lparr>index = 0, items = [\<lparr>line_Type = line_ItemText, line_Val = runes ''a''\<rparr>,
                               \<lparr>line_Type = line_ItemEOL, line_Val = runes ''\<newline>''\<rparr>]\<rparr> \<and>
   list_all (in_range \<lparr>index = 0, items = [\<lparr>line_Type = line_ItemText, line_Val = runes ''a''\<rparr>,
                               \<lparr>line_Type = line_ItemEOL, line_Val = runes ''\<newline>''\<rparr>]\<rparr>)
      [CallBackup, CallNext, CallNext, CallPeek, CallSetIndex 1, CallNext] \<and>
   (\<exists>l. Lexer_calls [CallBackup, CallNext, CallNext, CallPeek, CallSetIndex 1, CallNext]
           \<lparr>index = 0, items = [\<lparr>line_Type = line_ItemText, line_Val = runes ''a''\<rparr>,
                               \<lparr>line_Type = line_ItemEOL, line_Val = runes ''\<newline>''\<rparr>]\<rparr> = Inr l \<and>
        0 \<le> line_Index l \<and> line_Index l \<le> line_Len l)"
proof -
  have n: "New (\<lambda>r. False) (runes ''a\<newline>'') =
     Inr \<lparr>index = 0, items = [\<lparr>line_Type = line_ItemText, line_Val = runes ''a''\<rparr>,
                               \<lparr>line_Type = line_ItemEOL, line_Val = runes ''\<newline>''\<rparr>]\<rparr>"
    by (simp add: New_def New_end_def New_init_def New_body_def New_close_def IsSpace_def IsNumber_def go_index_def runes_def Let_def)
  have r: "list_all (in_range \<lparr>index = 0, items = [\<lparr>line_Type = line_ItemText, line_Val = runes ''a''\<rparr>,
                               \<lparr>line_Type = line_ItemEOL, line_Val = runes ''\<newline>''\<rparr>]\<rparr>)
      [CallBackup, CallNext, CallNext, CallPeek, CallSetIndex 1, CallNext]"
    by (simp add: in_range_def line_Len_def)
  from Lexer_cursor_in_range [OF n r, of "newParser []"] n r show ?thesis by blast
qed

lemma IsNumber_not_dot [simp]: "\<not> IsNumber N 46"
  by (simp add: IsNumber_def)

lemma IsNumber_not_minus [simp]: "\<not> IsNumber N 45"
  by (simp add: IsNumber_def)






lemmas New_eval = New_def New_end_def New_init_def New_body_def New_close_def IsSpace_def
  IsNumber_def go_index_def runes_def Let_def



text \<open>
  The first run of a line is another matter when \<^verbatim>\<open>-\<close> occurs after its first rune: there
  \<^verbatim>\<open>len(items) == 0\<close> alone makes the \<^verbatim>\<open>-\<close> a sign, and \<^verbatim>\<open>a-\<close> is an Integer; after a
  space the same run is Text.
\<close>

lemma first_run_late_minus:
  "New (\<lambda>r. False) (runes ''a-'') =
     Inr \<lparr>index = 0, items = [\<lparr>line_Type = line_ItemInt, line_Val = runes ''a-''\<rparr>,
                               \<lparr>line_Type = line_ItemEOF, line_Val = []\<rparr>]\<rparr> \<and>
   New (\<lambda>r. False) (runes ''x a-'') =
     Inr \<lparr>index = 0, items = [\<lparr>line_Type = line_ItemText, line_Val = runes ''x''\<rparr>,
                               \<lparr>line_Type = line_ItemSpace, line_Val = runes '' ''\<rparr>,
                               \<lparr>line_Type = line_ItemText, line_Val = runes ''a-''\<rparr>,
                               \<lparr>line_Type = line_ItemEOF, line_Val = []\<rparr>]\<rparr>"
  by (simp add: New_eval)

section \<open>Properties of DecodeList\<close>




lemma Decode_defer_fields [simp]:
  "foundLeftConstraint (Decode_defer r v) = foundLeftConstraint v"
  "foundRightConstraint (Decode_defer r v) = foundRightConstraint v"
  "inQuote (Decode_defer r v) = inQuote v"
  "entry (Decode_defer r v) = entry v"
  "read (Decode_defer r v) = read v"
  "d_results (Decode_defer r v) = d_results v"
  "lastRune (Decode_defer r v) = r"
  by (simp_all add: Decode_defer_def Let_def)






lemma phase_results:
  "phase c body res (length body + 4) v \<Longrightarrow> d_results v = res @ [body]"
  by (simp add: phase_def)






end
